theory Spec2Isabelle
  imports Main
begin

section \<open>The page: document, class attributes, timers\<close>

text \<open>
  \<^verbatim>\<open>static/js/draw.js\<close> registers one listener for \<^verbatim>\<open>DOMContentLoaded\<close>:
  \<^verbatim>\<open>
  document.addEventListener('DOMContentLoaded', () => {
    const cards = document.querySelectorAll('.draw-card');
    cards.forEach((card, index) => {
      setTimeout(() => {
        card.classList.add('revealed');
      }, index * 700);
    });
  });
  \<close>
  The script touches three things of its host: the document tree (read by
  \<^verbatim>\<open>querySelectorAll\<close>), the class attribute of elements (written through
  \<^verbatim>\<open>classList.add\<close>) and the list of pending timers (extended by
  \<^verbatim>\<open>setTimeout\<close>). They are the state of the model.

  An element is an object reference: a \<open>node\<close>. The document lists the nodes that are in
  the tree, in tree order, and a store gives each node the tokens of its class attribute,
  in the order they are written there (a class attribute may repeat a token).
\<close>

type_synonym node = nat
type_synonym token = string

record document =
  tree :: "node list"
  classAttr :: "node \<Rightarrow> token list"

text \<open>
  A pending timer is the closure handed to \<^verbatim>\<open>setTimeout\<close> together with its delay in
  milliseconds. The closure of the script has one free variable, \<^verbatim>\<open>card\<close>, so the timer
  records the node it captured. \<^verbatim>\<open>index * 700\<close> is a product of naturals: the index of a
  node list is below \<open>2 ^ 32\<close>, where the multiplication of JavaScript numbers is exact.
  The delay of a timer is the number the script hands to \<^verbatim>\<open>setTimeout\<close>; how a host treats
  a delay beyond the range of its timers (about 24.8 days, reached at index 3067834) is
  not modelled.
\<close>

record timer =
  delay :: nat
  captured :: node

datatype dom_error = SyntaxError | InvalidCharacterError

text \<open>
  The page: its document, the timers that are pending (in the order they were set), and
  the exceptions that callbacks have thrown (the host reports them and goes on).
\<close>

record page =
  doc :: document
  timers :: "timer list"
  reported :: "dom_error list"

section \<open>Host operations the script calls\<close>

text \<open>
  \<^verbatim>\<open>document.querySelectorAll('.' + cls)\<close>: the elements of the tree that carry the class,
  in tree order, as a static list.
\<close>

definition matches :: "token \<Rightarrow> document \<Rightarrow> node \<Rightarrow> bool" where
  "matches cls d n \<longleftrightarrow> cls \<in> set (classAttr d n)"

definition querySelectorAll :: "token \<Rightarrow> document \<Rightarrow> node list" where
  "querySelectorAll cls d = filter (matches cls d) (tree d)"

text \<open>
  \<^verbatim>\<open>classList\<close> is the ordered set of the attribute's tokens: each token once, at the place
  of its first occurrence. \<^verbatim>\<open>classList.add(tok)\<close> throws on an empty token or one with
  ASCII whitespace; otherwise it appends the token to the ordered set unless it is there,
  and writes the ordered set back to the attribute.
\<close>

definition ordered_append :: "token list \<Rightarrow> token \<Rightarrow> token list" where
  "ordered_append ts t = (if t \<in> set ts then ts else ts @ [t])"

definition tokenSet :: "token list \<Rightarrow> token list" where
  "tokenSet attr = foldl ordered_append [] attr"

definition ascii_whitespace :: "char \<Rightarrow> bool" where
  "ascii_whitespace c \<longleftrightarrow> c \<in> set [CHR 0x09, CHR 0x0A, CHR 0x0C, CHR 0x0D, CHR 0x20]"

definition classList_add :: "token \<Rightarrow> token list \<Rightarrow> dom_error + token list" where
  "classList_add tok attr =
     (if tok = [] then Inl SyntaxError
      else if list_ex ascii_whitespace tok then Inl InvalidCharacterError
      else Inr (ordered_append (tokenSet attr) tok))"

text \<open>\<^verbatim>\<open>setTimeout(callback, ms)\<close> adds a pending timer; the script drops the id it returns.\<close>

definition setTimeout :: "node \<Rightarrow> nat \<Rightarrow> timer list \<Rightarrow> timer list" where
  "setTimeout c ms ts = ts @ [\<lparr>delay = ms, captured = c\<rparr>]"

section \<open>The script\<close>

text \<open>
  The timer callback, \<^verbatim>\<open>() => { card.classList.add('revealed'); }\<close>, run on the page
  with the captured node \<open>c\<close>.
\<close>

definition callback :: "node \<Rightarrow> page \<Rightarrow> page" where
  "callback c p =
     (case classList_add ''revealed'' (classAttr (doc p) c) of
        Inl e \<Rightarrow> p\<lparr>reported := reported p @ [e]\<rparr>
      | Inr ts \<Rightarrow> p\<lparr>doc := (doc p)\<lparr>classAttr := (classAttr (doc p))(c := ts)\<rparr>\<rparr>)"

text \<open>
  \<^verbatim>\<open>cards.forEach((card, index) => { setTimeout(..., index * 700); })\<close>: the loop over the
  static list, with the running index and the pending timers threaded through.
\<close>

fun forEach :: "node list \<Rightarrow> nat \<Rightarrow> timer list \<Rightarrow> timer list" where
  "forEach [] index ts = ts"
| "forEach (c # cards) index ts = forEach cards (Suc index) (setTimeout c (index * 700) ts)"

text \<open>The listener for \<^verbatim>\<open>DOMContentLoaded\<close>.\<close>

definition cards :: "page \<Rightarrow> node list" where
  "cards p = querySelectorAll ''draw-card'' (doc p)"

definition listener :: "page \<Rightarrow> page" where
  "listener p = p\<lparr>timers := forEach (cards p) 0 (timers p)\<rparr>"

text \<open>The timers the listener has set: those after the ones that were pending before.\<close>

definition scheduled :: "page \<Rightarrow> timer list" where
  "scheduled p = drop (length (timers p)) (timers (listener p))"

section \<open>The event loop\<close>

text \<open>
  All timers of the listener are set in one turn of the event loop, so the host fires
  them in the order of their delays, and timers of equal delay in the order they were
  set. A timer that fires is no longer pending.
\<close>

definition next_timer :: "timer list \<Rightarrow> timer option" where
  "next_timer ts = (case sort_key delay ts of [] \<Rightarrow> None | t # _ \<Rightarrow> Some t)"

definition timer_fires :: "page \<Rightarrow> page" where
  "timer_fires p =
     (case next_timer (timers p) of
        None \<Rightarrow> p
      | Some t \<Rightarrow> callback (captured t) (p\<lparr>timers := remove1 t (timers p)\<rparr>))"

lemma next_timer_mem: "next_timer ts = Some t \<Longrightarrow> t \<in> set ts"
proof -
  assume "next_timer ts = Some t"
  then obtain r where "sort_key delay ts = t # r"
    by (cases "sort_key delay ts") (simp_all add: next_timer_def)
  then have "t \<in> set (sort_key delay ts)" by simp
  then show ?thesis by simp
qed

lemma timers_callback [simp]: "timers (callback c p) = timers p"
  by (simp add: callback_def split: sum.splits)

lemma timer_fires_fewer:
  "timers p \<noteq> [] \<Longrightarrow> length (timers (timer_fires p)) < length (timers p)"
proof -
  assume ne: "timers p \<noteq> []"
  then have "sort_key delay (timers p) \<noteq> []"
    by (metis length_sort list.size(3) length_0_conv)
  then obtain t where t: "next_timer (timers p) = Some t"
    by (cases "sort_key delay (timers p)") (simp_all add: next_timer_def)
  then have "t \<in> set (timers p)" by (rule next_timer_mem)
  then have "length (remove1 t (timers p)) < length (timers p)"
    using ne by (simp add: length_remove1)
  with t show ?thesis by (simp add: timer_fires_def)
qed

text \<open>The host runs until no timer is pending.\<close>

function run_timers :: "page \<Rightarrow> page" where
  "run_timers p = (if timers p = [] then p else run_timers (timer_fires p))"
  by pat_completeness auto
termination
  by (relation "measure (\<lambda>p. length (timers p))") (auto simp: timer_fires_fewer)

declare run_timers.simps [simp del]

text \<open>
  Between two timers anything else on the page may change the document: an event is a
  timer of the script firing, or the document being replaced by another state of it.
\<close>

datatype event = TimerFires | DocumentChanges document

fun exec :: "event \<Rightarrow> page \<Rightarrow> page" where
  "exec TimerFires p = timer_fires p"
| "exec (DocumentChanges d) p = p\<lparr>doc := d\<rparr>"

section \<open>Example pages\<close>

text \<open>
  A page with four elements in tree order: card A, a title that is not a card, card B
  that is revealed already, and card C with a further class. No timer is pending.
\<close>

definition doc_ABC :: document where
  "doc_ABC =
     \<lparr>tree = [0, 1, 2, 3],
      classAttr = (\<lambda>_. [])
        (0 := [''draw-card''],
         1 := [''title''],
         2 := [''draw-card'', ''revealed''],
         3 := [''draw-card'', ''face-up''])\<rparr>"

definition page_ABC :: page where
  "page_ABC = \<lparr>doc = doc_ABC, timers = [], reported = []\<rparr>"

text \<open>A page without any card.\<close>

definition page_empty :: page where
  "page_empty =
     \<lparr>doc = \<lparr>tree = [0, 1], classAttr = (\<lambda>_. [])(0 := [''title''], 1 := [''revealed''])\<rparr>,
      timers = [], reported = []\<rparr>"

text \<open>
  A later state of the first document: card A is revealed, the title has acquired
  \<^verbatim>\<open>draw-card\<close>, and a fifth element, a card, has been added.
\<close>

definition doc_later :: document where
  "doc_later =
     \<lparr>tree = [0, 1, 2, 3, 4],
      classAttr = (\<lambda>_. [])
        (0 := [''draw-card'', ''revealed''],
         1 := [''title'', ''draw-card''],
         2 := [''draw-card'', ''revealed''],
         3 := [''draw-card'', ''face-up''],
         4 := [''draw-card''])\<rparr>"

section \<open>The loop of the listener\<close>

lemma forEach_append:
  "forEach cs i ts = ts @ map (\<lambda>(k, c). \<lparr>delay = k * 700, captured = c\<rparr>) (enumerate i cs)"
  by (induction cs arbitrary: i ts) (simp_all add: setTimeout_def)

lemma scheduled_eq:
  "scheduled p = map (\<lambda>(k, c). \<lparr>delay = k * 700, captured = c\<rparr>) (enumerate 0 (cards p))"
  by (simp add: scheduled_def listener_def forEach_append)

lemma timers_listener: "timers (listener p) = timers p @ scheduled p"
  by (simp add: scheduled_eq) (simp add: listener_def forEach_append)

lemma captured_scheduled: "map captured (scheduled p) = cards p"
proof -
  have "map captured (scheduled p) = map snd (enumerate 0 (cards p))"
    by (simp add: scheduled_eq case_prod_unfold comp_def)
  then show ?thesis by simp
qed

lemma delay_scheduled: "map delay (scheduled p) = map (\<lambda>k. k * 700) [0..<length (cards p)]"
proof (rule nth_equalityI)
  show "length (map delay (scheduled p)) = length (map (\<lambda>k. k * 700) [0..<length (cards p)])"
    by (simp add: scheduled_eq)
next
  fix i
  assume "i < length (map delay (scheduled p))"
  then have "i < length (cards p)" by (simp add: scheduled_eq)
  then show "map delay (scheduled p) ! i = map (\<lambda>k. k * 700) [0..<length (cards p)] ! i"
    by (simp add: scheduled_eq nth_enumerate_eq)
qed

lemma cards_page_ABC: "cards page_ABC = [0, 2, 3]"
  by (simp add: cards_def querySelectorAll_def matches_def page_ABC_def doc_ABC_def)

lemma cards_page_empty: "cards page_empty = []"
  by (simp add: cards_def querySelectorAll_def matches_def page_empty_def)

section \<open>What the listener schedules\<close>

lemma count_list_distinct:
  "distinct xs \<Longrightarrow> count_list xs x = (if x \<in> set xs then 1 else 0)"
  by (induction xs) auto

lemma distinct_cards: "distinct (tree (doc p)) \<Longrightarrow> distinct (cards p)"
  by (simp add: cards_def querySelectorAll_def)

lemma set_cards:
  "set (cards p) = {n \<in> set (tree (doc p)). matches ''draw-card'' (doc p) n}"
  by (simp add: cards_def querySelectorAll_def)

text \<open>
  C1. The listener sets as many timers as the selector matched elements. Their captured
  nodes are the matched elements, in the order of the snapshot; in a document whose tree
  lists every element once, an element is captured by exactly one timer if it is in the
  tree and carries \<^verbatim>\<open>draw-card\<close>, and by none otherwise.
\<close>

theorem one_timer_per_card:
  assumes "distinct (tree (doc p))"
  shows "timers (listener p) = timers p @ scheduled p
       \<and> length (scheduled p) = length (cards p)
       \<and> map captured (scheduled p) = cards p
       \<and> count_list (map captured (scheduled p)) n =
           (if n \<in> set (tree (doc p)) \<and> matches ''draw-card'' (doc p) n then 1 else 0)"
proof -
  have len: "length (scheduled p) = length (cards p)"
    by (simp add: scheduled_eq)
  have "count_list (cards p) n = (if n \<in> set (cards p) then 1 else 0)"
    using assms by (intro count_list_distinct distinct_cards)
  then have "count_list (map captured (scheduled p)) n =
      (if n \<in> set (tree (doc p)) \<and> matches ''draw-card'' (doc p) n then 1 else 0)"
    by (simp add: captured_scheduled set_cards)
  with len show ?thesis
    by (simp add: timers_listener captured_scheduled)
qed

theorem one_timer_per_card_witness:
  "distinct (tree (doc page_ABC))
   \<and> length (scheduled page_ABC) = 3
   \<and> map captured (scheduled page_ABC) = [0, 2, 3]
   \<and> count_list (map captured (scheduled page_ABC)) 2 = 1
   \<and> count_list (map captured (scheduled page_ABC)) 1 = 0"
proof -
  have d: "distinct (tree (doc page_ABC))"
    by (simp add: page_ABC_def doc_ABC_def)
  have m: "matches ''draw-card'' (doc page_ABC) 2" "\<not> matches ''draw-card'' (doc page_ABC) 1"
      "2 \<in> set (tree (doc page_ABC))"
    by (simp_all add: matches_def page_ABC_def doc_ABC_def)
  show ?thesis
    using d m one_timer_per_card [OF d, of 2] one_timer_per_card [OF d, of 1]
    by (simp add: cards_page_ABC)
qed

text \<open>
  C2. The timer set for the element at index \<open>i\<close> of the snapshot has the delay
  \<open>700 * i\<close>: 0 for the first element, 700 for the second, 1400 for the third.
\<close>

theorem delay_of_index:
  "i < length (cards p) \<Longrightarrow> scheduled p ! i = \<lparr>delay = 700 * i, captured = cards p ! i\<rparr>"
  by (simp add: scheduled_eq nth_enumerate_eq)

theorem delay_of_index_witness:
  "2 < length (cards page_ABC) \<and> scheduled page_ABC ! 2 = \<lparr>delay = 1400, captured = 3\<rparr>"
  using delay_of_index [of 2 page_ABC] by (simp add: cards_page_ABC)

section \<open>Class lists\<close>

lemma set_foldl_ordered_append:
  "set (foldl ordered_append acc xs) = set acc \<union> set xs"
  by (induction xs arbitrary: acc) (auto simp: ordered_append_def)

lemma distinct_foldl_ordered_append:
  "distinct acc \<Longrightarrow> distinct (foldl ordered_append acc xs)"
  by (induction xs arbitrary: acc) (auto simp: ordered_append_def)

lemma foldl_ordered_append_id:
  "set xs \<subseteq> set acc \<Longrightarrow> foldl ordered_append acc xs = acc"
  by (induction xs arbitrary: acc) (auto simp: ordered_append_def)

lemma foldl_ordered_append_distinct:
  "distinct (acc @ xs) \<Longrightarrow> foldl ordered_append acc xs = acc @ xs"
  by (induction xs arbitrary: acc) (auto simp: ordered_append_def)

lemma set_tokenSet [simp]: "set (tokenSet attr) = set attr"
  by (simp add: tokenSet_def set_foldl_ordered_append)

lemma distinct_tokenSet [simp]: "distinct (tokenSet attr)"
  by (simp add: tokenSet_def distinct_foldl_ordered_append)

lemma tokenSet_distinct: "distinct attr \<Longrightarrow> tokenSet attr = attr"
  using foldl_ordered_append_distinct [of "[]" attr] by (simp add: tokenSet_def)

lemma classList_add_revealed:
  "classList_add ''revealed'' attr = Inr (ordered_append (tokenSet attr) ''revealed'')"
  by (simp add: classList_add_def ascii_whitespace_def)

lemma callback_eq:
  "callback c p =
     p\<lparr>doc := (doc p)\<lparr>classAttr := (classAttr (doc p))
        (c := ordered_append (tokenSet (classAttr (doc p) c)) ''revealed'')\<rparr>\<rparr>"
  by (simp add: callback_def classList_add_revealed)

lemma reported_callback [simp]: "reported (callback c p) = reported p"
  by (simp add: callback_eq)

lemma tree_callback [simp]: "tree (doc (callback c p)) = tree (doc p)"
  by (simp add: callback_eq)

lemma classAttr_callback:
  "classAttr (doc (callback c p)) n =
     (if n = c then ordered_append (tokenSet (classAttr (doc p) c)) ''revealed''
      else classAttr (doc p) n)"
  by (simp add: callback_eq)

lemma set_classAttr_callback:
  "set (classAttr (doc (callback c p)) n) =
     (if n = c then insert ''revealed'' (set (classAttr (doc p) n)) else set (classAttr (doc p) n))"
  by (auto simp: classAttr_callback ordered_append_def)

lemma callback_timers_update:
  "(callback c (p\<lparr>timers := ts\<rparr>))\<lparr>timers := ts'\<rparr> = callback c (p\<lparr>timers := ts'\<rparr>)"
  by (simp add: callback_eq)

section \<open>The order of firing\<close>

lemma sort_key_remove1_head:
  "sort_key delay ts = t # r \<Longrightarrow> sort_key delay (remove1 t ts) = r"
proof (induction ts arbitrary: t r)
  case Nil
  then show ?case by simp
next
  case (Cons x xs)
  show ?case
  proof (cases "sort_key delay xs")
    case Nil
    then have "xs = []" by (metis length_sort length_0_conv)
    with Cons.prems show ?thesis by simp
  next
    case (Cons y s)
    show ?thesis
    proof (cases "delay x \<le> delay y")
      case True
      with Cons Cons.prems show ?thesis by simp
    next
      case False
      with Cons Cons.prems have ty: "t = y" and r: "r = insort_key delay x s" by simp_all
      from False ty have "x \<noteq> t" by auto
      moreover have "sort_key delay (remove1 t xs) = s"
        using Cons ty by (intro Cons.IH) simp
      ultimately show ?thesis using r by simp
    qed
  qed
qed

lemma timer_fires_Cons:
  "sort_key delay (timers p) = t # r \<Longrightarrow>
     timer_fires p = callback (captured t) (p\<lparr>timers := remove1 t (timers p)\<rparr>)"
  by (simp add: timer_fires_def next_timer_def)

lemma run_timers_sorted:
  "sort_key delay (timers p) = ts \<Longrightarrow>
     run_timers p = foldl (\<lambda>q t. callback (captured t) q) (p\<lparr>timers := []\<rparr>) ts"
proof (induction ts arbitrary: p)
  case Nil
  then have "timers p = []" by (metis length_sort length_0_conv)
  then show ?case by (simp add: run_timers.simps)
next
  case (Cons t r)
  then have ne: "timers p \<noteq> []" by auto
  let ?q = "callback (captured t) (p\<lparr>timers := remove1 t (timers p)\<rparr>)"
  have fires: "timer_fires p = ?q" using Cons.prems by (rule timer_fires_Cons)
  have "sort_key delay (timers ?q) = r"
    using Cons.prems by (simp add: sort_key_remove1_head)
  then have "run_timers ?q = foldl (\<lambda>q t. callback (captured t) q) (?q\<lparr>timers := []\<rparr>) r"
    by (rule Cons.IH)
  moreover have "run_timers p = run_timers ?q"
    using ne fires by (subst run_timers.simps) simp
  ultimately show ?case by (simp add: callback_timers_update)
qed


section \<open>All timers fired\<close>

lemma timers_foldl_callback [simp]:
  "timers (foldl (\<lambda>q t. callback (captured t) q) p ts) = timers p"
  by (induction ts arbitrary: p) simp_all

lemma reported_foldl_callback [simp]:
  "reported (foldl (\<lambda>q t. callback (captured t) q) p ts) = reported p"
  by (induction ts arbitrary: p) simp_all

lemma tree_foldl_callback [simp]:
  "tree (doc (foldl (\<lambda>q t. callback (captured t) q) p ts)) = tree (doc p)"
  by (induction ts arbitrary: p) simp_all

lemma set_classAttr_foldl_callback:
  "set (classAttr (doc (foldl (\<lambda>q t. callback (captured t) q) p ts)) n) =
     (if n \<in> captured ` set ts then insert ''revealed'' (set (classAttr (doc p) n))
      else set (classAttr (doc p) n))"
  by (induction ts arbitrary: p) (auto simp: set_classAttr_callback)

lemma classAttr_foldl_callback_other:
  "n \<notin> captured ` set ts \<Longrightarrow>
     classAttr (doc (foldl (\<lambda>q t. callback (captured t) q) p ts)) n = classAttr (doc p) n"
  by (induction ts arbitrary: p) (auto simp: classAttr_callback)

lemma run_timers_eq:
  "run_timers p =
     foldl (\<lambda>q t. callback (captured t) q) (p\<lparr>timers := []\<rparr>) (sort_key delay (timers p))"
  by (rule run_timers_sorted) (rule refl)

lemma captured_timers_listener:
  "captured ` set (timers (listener p)) = captured ` set (timers p) \<union> set (cards p)"
proof -
  have "captured ` set (scheduled p) = set (map captured (scheduled p))" by simp
  then have "captured ` set (scheduled p) = set (cards p)"
    by (simp only: captured_scheduled)
  then show ?thesis by (simp add: timers_listener image_Un)
qed

lemma doc_listener [simp]: "doc (listener p) = doc p"
  by (simp add: listener_def)

lemma reported_listener [simp]: "reported (listener p) = reported p"
  by (simp add: listener_def)

text \<open>
  C3. When the listener has run and no timer is pending any more, every element of the
  snapshot carries \<^verbatim>\<open>revealed\<close>, and its classes are those it had before the listener
  ran together with \<^verbatim>\<open>revealed\<close>: none is lost.
\<close>

theorem all_cards_revealed:
  "n \<in> set (cards p) \<Longrightarrow>
     ''revealed'' \<in> set (classAttr (doc (run_timers (listener p))) n)
   \<and> set (classAttr (doc p) n) \<subseteq> set (classAttr (doc (run_timers (listener p))) n)
   \<and> set (classAttr (doc (run_timers (listener p))) n) =
       insert ''revealed'' (set (classAttr (doc p) n))
   \<and> timers (run_timers (listener p)) = []"
proof -
  assume "n \<in> set (cards p)"
  then have "n \<in> captured ` set (sort_key delay (timers (listener p)))"
    by (simp add: captured_timers_listener)
  then have "set (classAttr (doc (run_timers (listener p))) n) =
      insert ''revealed'' (set (classAttr (doc p) n))"
    by (simp add: run_timers_eq set_classAttr_foldl_callback)
  then show ?thesis by (auto simp: run_timers_eq)
qed

theorem all_cards_revealed_witness:
  "3 \<in> set (cards page_ABC)
   \<and> classAttr (doc page_ABC) 3 = [''draw-card'', ''face-up'']
   \<and> set (classAttr (doc (run_timers (listener page_ABC))) 3) =
       {''draw-card'', ''face-up'', ''revealed''}"
proof -
  have c: "3 \<in> set (cards page_ABC)" by (simp add: cards_page_ABC)
  have a: "classAttr (doc page_ABC) 3 = [''draw-card'', ''face-up'']"
    by (simp add: page_ABC_def doc_ABC_def)
  from all_cards_revealed [OF c] a c show ?thesis by auto
qed

text \<open>
  The example page when all timers have fired: the three cards carry \<^verbatim>\<open>revealed\<close> once
  each, the title is as it was, and no exception has been reported.
\<close>

lemma run_page_ABC:
  "run_timers (listener page_ABC) =
     \<lparr>doc = \<lparr>tree = [0, 1, 2, 3],
        classAttr = (\<lambda>_. [])
          (0 := [''draw-card'', ''revealed''],
           1 := [''title''],
           2 := [''draw-card'', ''revealed''],
           3 := [''draw-card'', ''face-up'', ''revealed''])\<rparr>,
      timers = [], reported = []\<rparr>"
  apply (simp add: run_timers_eq listener_def cards_page_ABC setTimeout_def callback_eq)
  apply (simp add: page_ABC_def doc_ABC_def tokenSet_def ordered_append_def fun_eq_iff)
  done

section \<open>The reveal action\<close>

lemma fires_once_more:
  "callback c (callback c p) = callback c p"
  by (simp add: callback_eq tokenSet_distinct ordered_append_def distinct_foldl_ordered_append)

lemma callback_unchanged:
  "''revealed'' \<in> set (classAttr (doc p) c) \<Longrightarrow> distinct (classAttr (doc p) c) \<Longrightarrow>
     callback c p = p"
  by (simp add: callback_eq tokenSet_distinct ordered_append_def)

text \<open>
  C4. On an element that carries \<^verbatim>\<open>revealed\<close> already, the callback leaves the set of
  classes as it is, and the class attribute then holds \<^verbatim>\<open>revealed\<close> exactly once. Where
  the attribute repeats no token, the page is unchanged altogether. Running the callback
  twice is the same as running it once, and it throws no exception.
\<close>

theorem reveal_idempotent:
  "''revealed'' \<in> set (classAttr (doc p) c) \<Longrightarrow>
     set (classAttr (doc (callback c p)) c) = set (classAttr (doc p) c)
   \<and> count_list (classAttr (doc (callback c p)) c) ''revealed'' = 1
   \<and> (distinct (classAttr (doc p) c) \<longrightarrow> callback c p = p)
   \<and> callback c (callback c p) = callback c p
   \<and> reported (callback c p) = reported p"
proof -
  assume r: "''revealed'' \<in> set (classAttr (doc p) c)"
  then have same: "classAttr (doc (callback c p)) c = tokenSet (classAttr (doc p) c)"
    by (simp add: classAttr_callback ordered_append_def)
  then have "count_list (classAttr (doc (callback c p)) c) ''revealed'' = 1"
    using r by (simp add: count_list_distinct)
  moreover have "set (classAttr (doc (callback c p)) c) = set (classAttr (doc p) c)"
    using same by simp
  ultimately show ?thesis
    using r by (simp add: fires_once_more callback_unchanged)
qed

theorem reveal_idempotent_witness:
  "''revealed'' \<in> set (classAttr (doc page_ABC) 2)
   \<and> distinct (classAttr (doc page_ABC) 2)
   \<and> callback 2 page_ABC = page_ABC
   \<and> count_list (classAttr (doc (callback 2 page_ABC)) 2) ''revealed'' = 1"
proof -
  have r: "''revealed'' \<in> set (classAttr (doc page_ABC) 2)"
    and d: "distinct (classAttr (doc page_ABC) 2)"
    by (simp_all add: page_ABC_def doc_ABC_def)
  from reveal_idempotent [OF r] r d show ?thesis by blast
qed

section \<open>Firing order\<close>

lemma sorted_delay_scheduled: "sorted (map delay (scheduled p))"
  by (simp only: delay_scheduled) (simp add: sorted_map sorted_wrt_iff_nth_less)

lemma fire_order_scheduled: "sort_key delay (scheduled p) = scheduled p"
  by (rule sort_key_id_if_sorted) (rule sorted_delay_scheduled)

lemma foldl_callback_map:
  "foldl (\<lambda>q t. callback (captured t) q) p ts = foldl (\<lambda>q c. callback c q) p (map captured ts)"
  by (simp add: foldl_map)

lemma run_timers_listener:
  "timers p = [] \<Longrightarrow> run_timers (listener p) = foldl (\<lambda>q c. callback c q) p (cards p)"
proof -
  assume e: "timers p = []"
  then have t: "timers (listener p) = scheduled p" by (simp add: timers_listener)
  have "(listener p)\<lparr>timers := []\<rparr> = p" using e by (simp add: listener_def)
  then have "run_timers (listener p) = foldl (\<lambda>q t. callback (captured t) q) p (scheduled p)"
    by (simp add: run_timers_eq t fire_order_scheduled)
  then show ?thesis by (simp only: foldl_callback_map captured_scheduled)
qed

text \<open>
  C5. The delays of the timers the listener sets grow strictly with the index in the
  snapshot. Fired in the order of their delays, the timers fire in the order they were
  set, which is the order of the snapshot; on a page without other pending timers the
  event loop runs the callbacks on the elements of the snapshot from first to last.
\<close>

theorem fires_in_snapshot_order:
  "sort_key delay (scheduled p) = scheduled p
   \<and> map captured (sort_key delay (scheduled p)) = cards p
   \<and> (\<forall>i j. i < j \<and> j < length (cards p) \<longrightarrow>
         delay (scheduled p ! i) < delay (scheduled p ! j))
   \<and> (timers p = [] \<longrightarrow>
         run_timers (listener p) = foldl (\<lambda>q c. callback c q) p (cards p))"
proof -
  have "\<forall>i j. i < j \<and> j < length (cards p) \<longrightarrow>
      delay (scheduled p ! i) < delay (scheduled p ! j)"
    by (simp add: scheduled_eq nth_enumerate_eq)
  then show ?thesis
    by (simp add: fire_order_scheduled captured_scheduled run_timers_listener)
qed

theorem fires_in_snapshot_order_witness:
  "(0::nat) < 2 \<and> 2 < length (cards page_ABC) \<and> timers page_ABC = []
   \<and> delay (scheduled page_ABC ! 0) < delay (scheduled page_ABC ! 2)
   \<and> map captured (sort_key delay (scheduled page_ABC)) = [0, 2, 3]
   \<and> run_timers (listener page_ABC) = callback 3 (callback 2 (callback 0 page_ABC))"
proof -
  note order = fires_in_snapshot_order [of page_ABC]
  have t: "timers page_ABC = []" by (simp add: page_ABC_def)
  have n: "(0::nat) < 2 \<and> 2 < length (cards page_ABC)" by (simp add: cards_page_ABC)
  have a: "map captured (sort_key delay (scheduled page_ABC)) = cards page_ABC"
    using order by blast
  have b: "run_timers (listener page_ABC) = foldl (\<lambda>q c. callback c q) page_ABC (cards page_ABC)"
    using order t by blast
  have c: "delay (scheduled page_ABC ! 0) < delay (scheduled page_ABC ! 2)"
    using order n by blast
  from a b c n t show ?thesis by (simp add: cards_page_ABC)
qed

section \<open>No card\<close>

text \<open>
  C6. When the selector matches no element, the listener sets no timer and leaves the
  page as it is: no class attribute changes and no exception is reported. With no timer
  pending, the event loop has nothing to run.
\<close>

theorem no_card_no_timer:
  "cards p = [] \<Longrightarrow>
     scheduled p = [] \<and> listener p = p \<and> (timers p = [] \<longrightarrow> run_timers (listener p) = p)"
proof -
  assume e: "cards p = []"
  then have l: "listener p = p" by (simp add: listener_def)
  have "scheduled p = []" using e by (simp add: scheduled_eq)
  with l show ?thesis by (simp add: run_timers.simps)
qed

theorem no_card_no_timer_witness:
  "cards page_empty = [] \<and> timers page_empty = []
   \<and> scheduled page_empty = [] \<and> listener page_empty = page_empty
   \<and> run_timers (listener page_empty) = page_empty"
proof -
  have t: "timers page_empty = []" by (simp add: page_empty_def)
  from no_card_no_timer [OF cards_page_empty] t cards_page_empty show ?thesis
    by blast
qed

section \<open>What a firing timer can touch\<close>

lemma timer_fires_None:
  "timers p = [] \<Longrightarrow> timer_fires p = p"
  by (simp add: timer_fires_def next_timer_def)

lemma timers_timer_fires: "set (timers (timer_fires p)) \<subseteq> set (timers p)"
proof (cases "next_timer (timers p)")
  case None
  then show ?thesis by (simp add: timer_fires_def)
next
  case (Some t)
  then show ?thesis using set_remove1_subset [of t "timers p"]
    by (simp add: timer_fires_def)
qed

lemma classAttr_timer_fires:
  "n \<notin> captured ` set (timers p) \<Longrightarrow> classAttr (doc (timer_fires p)) n = classAttr (doc p) n"
proof (cases "next_timer (timers p)")
  case None
  then show ?thesis by (simp add: timer_fires_def)
next
  case (Some t)
  assume n: "n \<notin> captured ` set (timers p)"
  from Some have "t \<in> set (timers p)" by (rule next_timer_mem)
  with n have "n \<noteq> captured t" by auto
  with Some show ?thesis by (simp add: timer_fires_def classAttr_callback)
qed

lemma reported_timer_fires [simp]: "reported (timer_fires p) = reported p"
  by (simp add: timer_fires_def split: option.splits)

lemma tree_timer_fires [simp]: "tree (doc (timer_fires p)) = tree (doc p)"
  by (simp add: timer_fires_def split: option.splits)

lemma timers_funpow_timer_fires:
  "set (timers ((timer_fires ^^ k) p)) \<subseteq> set (timers p)"
proof (induction k)
  case 0
  show ?case by simp
next
  case (Suc k)
  have "set (timers ((timer_fires ^^ Suc k) p)) \<subseteq> set (timers ((timer_fires ^^ k) p))"
    by (simp add: timers_timer_fires)
  with Suc show ?case by blast
qed

lemma classAttr_funpow_timer_fires:
  "n \<notin> captured ` set (timers p) \<Longrightarrow>
     classAttr (doc ((timer_fires ^^ k) p)) n = classAttr (doc p) n"
proof (induction k)
  case 0
  show ?case by simp
next
  case (Suc k)
  from Suc.prems timers_funpow_timer_fires [of k p]
  have "n \<notin> captured ` set (timers ((timer_fires ^^ k) p))" by auto
  then have "classAttr (doc (timer_fires ((timer_fires ^^ k) p))) n =
      classAttr (doc ((timer_fires ^^ k) p)) n"
    by (rule classAttr_timer_fires)
  with Suc show ?case by simp
qed

lemma not_matching_not_card: "\<not> matches ''draw-card'' (doc p) n \<Longrightarrow> n \<notin> set (cards p)"
  by (simp add: set_cards)

text \<open>
  C7. On a page where no timer of the script is pending when the document becomes ready,
  an element that does not match \<^verbatim>\<open>.draw-card\<close> is not in the snapshot and no timer
  captures it. Its class attribute is the same after the listener, after any number of
  timers have fired, and when all have. The number of timers the listener sets is the
  number of elements of the tree that match.
\<close>

theorem others_untouched:
  assumes "timers p = []" and "\<not> matches ''draw-card'' (doc p) n"
  shows "n \<notin> set (cards p)
       \<and> n \<notin> captured ` set (timers (listener p))
       \<and> classAttr (doc (listener p)) n = classAttr (doc p) n
       \<and> classAttr (doc ((timer_fires ^^ k) (listener p))) n = classAttr (doc p) n
       \<and> classAttr (doc (run_timers (listener p))) n = classAttr (doc p) n
       \<and> length (scheduled p) = length (filter (matches ''draw-card'' (doc p)) (tree (doc p)))"
proof -
  from assms(2) have c: "n \<notin> set (cards p)" by (rule not_matching_not_card)
  with assms(1) have t: "n \<notin> captured ` set (timers (listener p))"
    by (simp add: captured_timers_listener)
  then have f: "classAttr (doc ((timer_fires ^^ k) (listener p))) n = classAttr (doc p) n"
    using classAttr_funpow_timer_fires [of n "listener p" k] by simp
  from t have "n \<notin> captured ` set (sort_key delay (timers (listener p)))" by simp
  then have r: "classAttr (doc (run_timers (listener p))) n = classAttr (doc p) n"
    by (simp add: run_timers_eq classAttr_foldl_callback_other)
  have "length (scheduled p) = length (filter (matches ''draw-card'' (doc p)) (tree (doc p)))"
    by (simp add: scheduled_eq) (simp add: cards_def querySelectorAll_def)
  with c t f r show ?thesis by simp
qed

theorem others_untouched_witness:
  "timers page_ABC = [] \<and> \<not> matches ''draw-card'' (doc page_ABC) 1
   \<and> classAttr (doc ((timer_fires ^^ 2) (listener page_ABC))) 1 = [''title'']
   \<and> classAttr (doc (run_timers (listener page_ABC))) 1 = [''title'']
   \<and> length (scheduled page_ABC) = 3"
proof -
  have t: "timers page_ABC = []" by (simp add: page_ABC_def)
  have m: "\<not> matches ''draw-card'' (doc page_ABC) 1"
    by (simp add: matches_def page_ABC_def doc_ABC_def)
  have a: "classAttr (doc page_ABC) 1 = [''title'']"
    by (simp add: page_ABC_def doc_ABC_def)
  have l: "length (filter (matches ''draw-card'' (doc page_ABC)) (tree (doc page_ABC))) = 3"
    using cards_page_ABC by (simp add: cards_def querySelectorAll_def)
  from others_untouched [OF t m, of 2] a l t m show ?thesis by simp
qed

section \<open>The revealed flag\<close>

lemma revealed_callback:
  "''revealed'' \<in> set (classAttr (doc p) n) \<Longrightarrow>
     ''revealed'' \<in> set (classAttr (doc (callback c p)) n)"
  by (simp add: set_classAttr_callback)

lemma revealed_timer_fires:
  "''revealed'' \<in> set (classAttr (doc p) n) \<Longrightarrow>
     ''revealed'' \<in> set (classAttr (doc (timer_fires p)) n)"
  by (simp add: timer_fires_def revealed_callback split: option.splits)

text \<open>
  C8. An element that carries \<^verbatim>\<open>revealed\<close> carries it after every operation of the
  script: the listener, the callback on any element, one timer firing, all timers firing.
  The flag is only ever set.
\<close>

theorem revealed_stays:
  "''revealed'' \<in> set (classAttr (doc p) n) \<Longrightarrow>
     ''revealed'' \<in> set (classAttr (doc (listener p)) n)
   \<and> ''revealed'' \<in> set (classAttr (doc (callback c p)) n)
   \<and> ''revealed'' \<in> set (classAttr (doc (timer_fires p)) n)
   \<and> ''revealed'' \<in> set (classAttr (doc (run_timers p)) n)"
proof -
  assume r: "''revealed'' \<in> set (classAttr (doc p) n)"
  then have "''revealed'' \<in> set (classAttr (doc (run_timers p)) n)"
    by (simp add: run_timers_eq set_classAttr_foldl_callback)
  with r show ?thesis by (simp add: revealed_callback revealed_timer_fires)
qed

theorem revealed_stays_witness:
  "''revealed'' \<in> set (classAttr (doc page_ABC) 2)
   \<and> ''revealed'' \<in> set (classAttr (doc (callback 0 page_ABC)) 2)
   \<and> ''revealed'' \<in> set (classAttr (doc (callback 2 page_ABC)) 2)
   \<and> ''revealed'' \<in> set (classAttr (doc (run_timers (listener page_ABC))) 2)"
proof -
  have r: "''revealed'' \<in> set (classAttr (doc page_ABC) 2)"
    by (simp add: page_ABC_def doc_ABC_def)
  then have r': "''revealed'' \<in> set (classAttr (doc (listener page_ABC)) 2)"
    by simp
  from revealed_stays [OF r, of 0] revealed_stays [OF r, of 2] revealed_stays [OF r', of 0] r
  show ?thesis by blast
qed

section \<open>The snapshot\<close>

lemma timers_exec: "set (timers (exec e p)) \<subseteq> set (timers p)"
  by (cases e) (simp_all add: timers_timer_fires)

lemma timers_fold_exec: "set (timers (fold exec es p)) \<subseteq> set (timers p)"
proof (induction es arbitrary: p)
  case Nil
  show ?case by simp
next
  case (Cons e es)
  have "set (timers (fold exec es (exec e p))) \<subseteq> set (timers (exec e p))"
    by (rule Cons.IH)
  with timers_exec [of e p] show ?case by auto
qed

lemma classAttr_timer_fires_next:
  "next_timer (timers p) = Some t \<Longrightarrow> m \<noteq> captured t \<Longrightarrow>
     classAttr (doc (timer_fires p)) m = classAttr (doc p) m"
  by (simp add: timer_fires_def classAttr_callback)

text \<open>
  C9. The listener queries the selector once, and nothing that runs later sets a timer.
  So on a page where no timer of the script was pending at the ready signal, whatever
  timers fire and however the document changes afterwards, the pending timers are among
  those the listener set and capture elements of the snapshot only; a timer that fires
  changes the class attribute of the element it captured and of no other; and an element
  outside the snapshot is left as it is by every firing, even if it matches the selector
  by then.
\<close>

theorem snapshot_fixed:
  assumes "timers p = []"
  shows "set (timers (fold exec es (listener p))) \<subseteq> set (scheduled p)
       \<and> captured ` set (timers (fold exec es (listener p))) \<subseteq> set (cards p)
       \<and> (\<forall>t m. next_timer (timers (fold exec es (listener p))) = Some t \<and> m \<noteq> captured t \<longrightarrow>
             classAttr (doc (timer_fires (fold exec es (listener p)))) m =
             classAttr (doc (fold exec es (listener p))) m)
       \<and> (n \<notin> set (cards p) \<longrightarrow>
             classAttr (doc (timer_fires (fold exec es (listener p)))) n =
             classAttr (doc (fold exec es (listener p))) n)"
proof -
  let ?q = "fold exec es (listener p)"
  have "timers (listener p) = scheduled p"
    using assms by (simp add: timers_listener)
  with timers_fold_exec [of es "listener p"]
  have sub: "set (timers ?q) \<subseteq> set (scheduled p)" by simp
  then have "captured ` set (timers ?q) \<subseteq> captured ` set (scheduled p)" by (rule image_mono)
  also have "captured ` set (scheduled p) = set (map captured (scheduled p))" by simp
  also have "\<dots> = set (cards p)" by (simp only: captured_scheduled)
  finally have cap: "captured ` set (timers ?q) \<subseteq> set (cards p)" .
  have "classAttr (doc (timer_fires ?q)) n = classAttr (doc ?q) n" if "n \<notin> set (cards p)"
    using that cap by (intro classAttr_timer_fires) auto
  with sub cap show ?thesis by (simp add: classAttr_timer_fires_next)
qed

theorem snapshot_fixed_witness:
  "timers page_ABC = [] \<and> 4 \<notin> set (cards page_ABC)
   \<and> 4 \<in> set (querySelectorAll ''draw-card'' doc_later)
   \<and> captured ` set (timers (fold exec [TimerFires, DocumentChanges doc_later] (listener page_ABC)))
       \<subseteq> {0, 2, 3}
   \<and> classAttr (doc (timer_fires
         (fold exec [TimerFires, DocumentChanges doc_later] (listener page_ABC)))) 4 =
       [''draw-card'']"
proof -
  have t: "timers page_ABC = []" by (simp add: page_ABC_def)
  have n: "4 \<notin> set (cards page_ABC)" by (simp add: cards_page_ABC)
  have l: "4 \<in> set (querySelectorAll ''draw-card'' doc_later)"
    by (simp add: querySelectorAll_def matches_def doc_later_def)
  have a: "classAttr (doc (fold exec [TimerFires, DocumentChanges doc_later] (listener page_ABC))) 4
      = [''draw-card'']"
    by (simp add: doc_later_def)
  from snapshot_fixed [OF t, of "[TimerFires, DocumentChanges doc_later]" 4] t n l a
  show ?thesis by (simp add: cards_page_ABC)
qed

section \<open>Termination\<close>

lemma length_timers_timer_fires:
  "timers p \<noteq> [] \<Longrightarrow> length (timers (timer_fires p)) = length (timers p) - 1"
proof -
  assume ne: "timers p \<noteq> []"
  then have "sort_key delay (timers p) \<noteq> []"
    by (metis length_sort length_0_conv)
  then obtain t where t: "next_timer (timers p) = Some t"
    by (cases "sort_key delay (timers p)") (simp_all add: next_timer_def)
  then have "t \<in> set (timers p)" by (rule next_timer_mem)
  with t show ?thesis by (simp add: timer_fires_def length_remove1)
qed

lemma run_timers_funpow: "run_timers p = (timer_fires ^^ length (timers p)) p"
proof (induction p rule: run_timers.induct)
  case (1 p)
  show ?case
  proof (cases "timers p = []")
    case True
    then show ?thesis by (simp add: run_timers.simps)
  next
    case False
    then obtain k where k: "length (timers p) = Suc k" by (cases "timers p") auto
    with False have "length (timers (timer_fires p)) = k"
      by (simp add: length_timers_timer_fires)
    with 1 False have "run_timers (timer_fires p) = (timer_fires ^^ k) (timer_fires p)"
      by simp
    moreover have "run_timers p = run_timers (timer_fires p)"
      using False by (subst run_timers.simps) simp
    ultimately show ?thesis using k by (simp add: funpow_swap1)
  qed
qed

lemma timers_run_timers [simp]: "timers (run_timers p) = []"
  by (simp add: run_timers_eq)

lemma funpow_timer_fires_idle: "timers p = [] \<Longrightarrow> (timer_fires ^^ k) p = p"
  by (induction k) (simp_all add: timer_fires_None)

lemma last_scheduled:
  "cards p \<noteq> [] \<Longrightarrow>
     last (scheduled p) =
       \<lparr>delay = 700 * (length (cards p) - 1), captured = last (cards p)\<rparr>"
proof -
  assume ne: "cards p \<noteq> []"
  have "length (scheduled p) = length (cards p)" by (simp add: scheduled_eq)
  with ne have "scheduled p \<noteq> []" by auto
  then have "last (scheduled p) = scheduled p ! (length (scheduled p) - 1)"
    by (rule last_conv_nth)
  also have "\<dots> = scheduled p ! (length (cards p) - 1)" by (simp add: scheduled_eq)
  also have "\<dots> = \<lparr>delay = 700 * (length (cards p) - 1), captured = cards p ! (length (cards p) - 1)\<rparr>"
    using ne by (simp add: scheduled_eq nth_enumerate_eq)
  finally show ?thesis using ne by (simp add: last_conv_nth)
qed

text \<open>
  C10. The loop of the listener returns with one timer more per element of the
  snapshot. The event loop then comes to rest: it fires each pending timer once, after
  which none is pending and further turns change nothing. On a page where no timer was
  pending before and the snapshot has \<open>N > 0\<close> elements, that takes \<open>N\<close>
  firings, and the last timer to fire is the one with the delay \<open>700 * (N - 1)\<close>.
\<close>

theorem reveal_terminates:
  "timers (listener p) = timers p @ scheduled p
   \<and> length (scheduled p) = length (cards p)
   \<and> timers (run_timers (listener p)) = []
   \<and> run_timers (listener p) = (timer_fires ^^ length (timers (listener p))) (listener p)
   \<and> (timer_fires ^^ k) (run_timers (listener p)) = run_timers (listener p)
   \<and> (timers p = [] \<and> cards p \<noteq> [] \<longrightarrow>
        run_timers (listener p) = (timer_fires ^^ length (cards p)) (listener p)
      \<and> delay (last (sort_key delay (timers (listener p)))) = 700 * (length (cards p) - 1))"
proof -
  have len: "length (scheduled p) = length (cards p)" by (simp add: scheduled_eq)
  have pow: "run_timers (listener p) = (timer_fires ^^ length (timers (listener p))) (listener p)"
    by (rule run_timers_funpow)
  have idle: "(timer_fires ^^ k) (run_timers (listener p)) = run_timers (listener p)"
    by (rule funpow_timer_fires_idle) simp
  have tl: "timers (listener p) = timers p @ scheduled p" by (rule timers_listener)
  have tr: "timers (run_timers (listener p)) = []" by simp
  have "run_timers (listener p) = (timer_fires ^^ length (cards p)) (listener p)
      \<and> delay (last (sort_key delay (timers (listener p)))) = 700 * (length (cards p) - 1)"
    if "timers p = []" and "cards p \<noteq> []"
  proof -
    from that(1) have s: "timers (listener p) = scheduled p" by (simp add: timers_listener)
    have "delay (last (sort_key delay (scheduled p))) = 700 * (length (cards p) - 1)"
      using that(2) by (simp add: fire_order_scheduled last_scheduled)
    moreover have "run_timers (listener p) = (timer_fires ^^ length (cards p)) (listener p)"
      using pow by (simp only: s len)
    ultimately show ?thesis by (simp only: s)
  qed
  with tl len tr pow idle show ?thesis by blast
qed

theorem reveal_terminates_witness:
  "timers page_ABC = [] \<and> cards page_ABC \<noteq> []
   \<and> run_timers (listener page_ABC) = (timer_fires ^^ 3) (listener page_ABC)
   \<and> delay (last (sort_key delay (timers (listener page_ABC)))) = 1400
   \<and> timers (run_timers (listener page_ABC)) = []"
proof -
  have t: "timers page_ABC = []" by (simp add: page_ABC_def)
  have c: "cards page_ABC \<noteq> []" by (simp add: cards_page_ABC)
  have l: "length (cards page_ABC) = 3" by (simp add: cards_page_ABC)
  have v: "700 * (3 - 1) = (1400::nat)" by simp
  have "run_timers (listener page_ABC) = (timer_fires ^^ length (cards page_ABC)) (listener page_ABC)
      \<and> delay (last (sort_key delay (timers (listener page_ABC)))) = 700 * (length (cards page_ABC) - 1)
      \<and> timers (run_timers (listener page_ABC)) = []"
    using reveal_terminates [of page_ABC 0] t c by blast
  then show ?thesis using t c unfolding l v by blast
qed

end
